theory Spec2Isabelle
  imports Main
begin

section \<open>Strings as the source uses them\<close>

text \<open>
  The SKU engine works on Python \<open>str\<close> values. They are modelled as \<open>string\<close> over the
  ASCII alphabet, which is what the spreadsheet codes and folder names are written in:
  the whitespace of \<open>str.split\<close>, \<open>str.strip\<close> and the regular expression class
  \<open>\s\<close> is the set of ASCII code points Python treats as whitespace, \<open>\d\<close> is
  \<open>0\<close>..\<open>9\<close>, and \<open>str.upper\<close> maps \<open>a\<close>..\<open>z\<close> to \<open>A\<close>..\<open>Z\<close>.
\<close>

definition is_space :: "char \<Rightarrow> bool" where
  "is_space c = ((of_char c :: nat) \<in> {9, 10, 11, 12, 13, 28, 29, 30, 31, 32})"

definition is_digit :: "char \<Rightarrow> bool" where
  "is_digit c = (48 \<le> (of_char c :: nat) \<and> (of_char c :: nat) \<le> 57)"

definition is_upper :: "char \<Rightarrow> bool" where
  "is_upper c = (65 \<le> (of_char c :: nat) \<and> (of_char c :: nat) \<le> 90)"

definition is_lower :: "char \<Rightarrow> bool" where
  "is_lower c = (97 \<le> (of_char c :: nat) \<and> (of_char c :: nat) \<le> 122)"

definition up :: "char \<Rightarrow> char" where
  "up c = (if is_lower c then char_of ((of_char c :: nat) - 32) else c)"

definition upper :: "string \<Rightarrow> string" where
  "upper s = map up s"

definition strip :: "string \<Rightarrow> string" where
  "strip s = rev (dropWhile is_space (rev (dropWhile is_space s)))"

text \<open>\<open>s.split()\<close>: the maximal runs of non-whitespace; \<open>w\<close> is the word being read.\<close>

fun split_aux :: "string \<Rightarrow> string \<Rightarrow> string list" where
  "split_aux [] w = (if w = [] then [] else [w])"
| "split_aux (c # cs) w =
     (if is_space c then (if w = [] then split_aux cs [] else w # split_aux cs [])
      else split_aux cs (w @ [c]))"

definition split_ws :: "string \<Rightarrow> string list" where
  "split_ws s = split_aux s []"

text \<open>\<open>' '.join(ws)\<close>\<close>

fun join_sp :: "string list \<Rightarrow> string" where
  "join_sp [] = []"
| "join_sp [w] = w"
| "join_sp (w # v # ws) = w @ CHR '' '' # join_sp (v # ws)"

text \<open>\<open>s.replace(a, b)\<close> for single characters, and \<open>s.replace(' ', '')\<close>.\<close>

definition replace_char :: "char \<Rightarrow> char \<Rightarrow> string \<Rightarrow> string" where
  "replace_char a b s = map (\<lambda>c. if c = a then b else c) s"

definition remove_spaces :: "string \<Rightarrow> string" where
  "remove_spaces s = filter (\<lambda>c. c \<noteq> CHR '' '') s"

text \<open>\<open>s.startswith(p)\<close>\<close>

definition startswith :: "string \<Rightarrow> string \<Rightarrow> bool" where
  "startswith s p = (take (length p) s = p)"

section \<open>Values as the source reads them\<close>

text \<open>
  The values the code receives from pandas or from a caller: \<open>NA\<close> is the float NaN of
  an empty spreadsheet cell, \<open>PyNone\<close> is \<open>None\<close>, \<open>Text\<close> is a \<open>str\<close>, and
  \<open>Other b s\<close> is any other value (a number, a boolean, a date) with its truth value
  \<open>b\<close> and its text \<open>s = str(value)\<close>, which is never empty: the number \<open>0\<close> is
  \<open>Other False ''0''\<close>. The code observes a value through \<open>pd.isna\<close>, through its
  truth value (\<open>not value\<close>, \<open>if value\<close>) and through \<open>str(value)\<close>.
\<close>

datatype cell = NA | PyNone | Text string | Other bool string

fun isna :: "cell \<Rightarrow> bool" where
  "isna NA = True"
| "isna PyNone = True"
| "isna (Text t) = False"
| "isna (Other b s) = False"

fun truthy :: "cell \<Rightarrow> bool" where
  "truthy NA = True"
| "truthy PyNone = False"
| "truthy (Text t) = (t \<noteq> [])"
| "truthy (Other b s) = b"

fun str :: "cell \<Rightarrow> string" where
  "str NA = ''nan''"
| "str PyNone = ''None''"
| "str (Text t) = t"
| "str (Other b s) = s"

section \<open>The regular expressions of the source\<close>

text \<open>
  Every pattern of the source is a sequence of atoms: a character class taken once, a
  greedy \<open>*\<close> or \<open>+\<close> of a class, the lazy \<open>+?\<close> of a class, the brackets of a
  capturing group and the anchor \<open>$\<close>. The matcher below is the backtracking matcher
  of Python's \<open>re\<close> on such sequences: a greedy repetition tries the longest run first
  and gives characters back one at a time, a lazy one tries the shortest first. It
  returns, for each atom, the text that atom consumed. \<open>re.match\<close> anchors at the
  start, so the leading \<open>^\<close> of the patterns is implied.
\<close>

datatype cls = Dot | Space | Digit | UpperAZ | Lit char

fun in_cls :: "cls \<Rightarrow> char \<Rightarrow> bool" where
  "in_cls Dot c = (c \<noteq> CHR 0x0A)"
| "in_cls Space c = is_space c"
| "in_cls Digit c = is_digit c"
| "in_cls UpperAZ c = is_upper c"
| "in_cls (Lit d) c = (c = d)"

datatype atom = One cls | Star cls | Plus cls | LazyStar cls | LazyPlus cls
  | GOpen | GClose | Eos

fun consumed :: "char \<Rightarrow> string list option \<Rightarrow> string list option" where
  "consumed c (Some (p # ps)) = Some ((c # p) # ps)"
| "consumed c _ = None"

fun orelse :: "'a option \<Rightarrow> 'a option \<Rightarrow> 'a option" where
  "orelse (Some x) _ = Some x"
| "orelse None y = y"

fun re_run :: "atom list \<Rightarrow> string \<Rightarrow> string list option" where
  "re_run [] s = Some []"
| "re_run (GOpen # as) s = map_option (Cons []) (re_run as s)"
| "re_run (GClose # as) s = map_option (Cons []) (re_run as s)"
| "re_run (Eos # as) s =
     (if s = [] \<or> s = [CHR 0x0A] then map_option (Cons []) (re_run as s) else None)"
| "re_run (One k # as) [] = None"
| "re_run (One k # as) (c # cs) =
     (if in_cls k c then map_option (Cons [c]) (re_run as cs) else None)"
| "re_run (Star k # as) [] = map_option (Cons []) (re_run as [])"
| "re_run (Star k # as) (c # cs) =
     orelse (if in_cls k c then consumed c (re_run (Star k # as) cs) else None)
            (map_option (Cons []) (re_run as (c # cs)))"
| "re_run (Plus k # as) [] = None"
| "re_run (Plus k # as) (c # cs) =
     (if in_cls k c then consumed c (re_run (Star k # as) cs) else None)"
| "re_run (LazyStar k # as) [] = map_option (Cons []) (re_run as [])"
| "re_run (LazyStar k # as) (c # cs) =
     orelse (map_option (Cons []) (re_run as (c # cs)))
            (if in_cls k c then consumed c (re_run (LazyStar k # as) cs) else None)"
| "re_run (LazyPlus k # as) [] = None"
| "re_run (LazyPlus k # as) (c # cs) =
     (if in_cls k c then consumed c (re_run (LazyStar k # as) cs) else None)"

text \<open>The captured groups, in order: the text consumed between each pair of brackets.\<close>

fun collect :: "(atom \<times> string) list \<Rightarrow> string option \<Rightarrow> string list" where
  "collect [] g = []"
| "collect ((GOpen, p) # r) g = collect r (Some [])"
| "collect ((GClose, p) # r) g = (case g of Some t \<Rightarrow> t # collect r None | None \<Rightarrow> collect r None)"
| "collect ((a, p) # r) g = collect r (map_option (\<lambda>t. t @ p) g)"

text \<open>\<open>re.match(pattern, s)\<close>: \<open>None\<close>, or the list of the groups \<open>group(1)\<close>, \<open>group(2)\<close>, ...\<close>

definition re_match :: "atom list \<Rightarrow> string \<Rightarrow> string list option" where
  "re_match as s = map_option (\<lambda>ps. collect (zip as ps) None) (re_run as s)"

definition group :: "string list \<Rightarrow> nat \<Rightarrow> string" where
  "group gs i = gs ! (i - 1)"

section \<open>SKU parsing (config.py)\<close>

text \<open>\<open>r'^(.+?)[\s]*-[\s]*(\d+)$'\<close>\<close>

definition dash_pattern :: "atom list" where
  "dash_pattern =
     [GOpen, LazyPlus Dot, GClose, Star Space, One (Lit CHR ''-''), Star Space,
      GOpen, Plus Digit, GClose, Eos]"

text \<open>\<open>r'^(WP[A-Z]+\s*\d+)\s+(.+)$'\<close>\<close>

definition space_pattern :: "atom list" where
  "space_pattern =
     [GOpen, One (Lit CHR ''W''), One (Lit CHR ''P''), Plus UpperAZ, Star Space, Plus Digit,
      GClose, Plus Space, GOpen, Plus Dot, GClose, Eos]"

text \<open>
  \<open>parse_sku(raw_sku)\<close>. The argument is any value; the result is the pair
  \<open>(base, var)\<close>, each \<open>None\<close> or a string. The three steps are the guard
  \<open>not raw_sku or str(raw_sku).strip() == ''\<close>, the choice between the dash pattern,
  the space pattern and the whole string, and the deep parse of a base that still
  contains a space.
\<close>

definition first_parse :: "string \<Rightarrow> string \<times> string option" where
  "first_parse sku =
     (case re_match dash_pattern sku of
        Some m \<Rightarrow> (strip (group m 1), Some (strip (group m 2)))
      | None \<Rightarrow>
         (case re_match space_pattern sku of
            Some m \<Rightarrow> (strip (group m 1), Some (strip (group m 2)))
          | None \<Rightarrow> (sku, None)))"

definition deep_parse :: "string \<times> string option \<Rightarrow> string \<times> string option" where
  "deep_parse bv =
     (let base = fst bv; var = snd bv in
      if base \<noteq> [] \<and> CHR '' '' \<in> set base then
        (case re_match space_pattern base of
           Some m \<Rightarrow> (strip (group m 1), if var = None then Some (strip (group m 2)) else var)
         | None \<Rightarrow> (base, var))
      else (base, var))"

definition parse_sku :: "cell \<Rightarrow> string option \<times> string option" where
  "parse_sku raw_sku =
     (if \<not> truthy raw_sku \<or> strip (str raw_sku) = [] then (None, None)
      else let sku = strip (str raw_sku);
               sku = join_sp (split_ws sku);
               bv = deep_parse (first_parse sku)
           in (Some (fst bv), snd bv))"

definition get_base_sku :: "cell \<Rightarrow> string option" where
  "get_base_sku raw_sku = fst (parse_sku raw_sku)"

section \<open>Identity normalisation and image lookup (image\_mapping.py)\<close>

text \<open>
  \<open>re.sub(pattern, repl, s)\<close>: the pattern is tried at each position from the left; a
  match is replaced and the scan goes on behind it, an unmatched character is copied.
\<close>

fun re_sub :: "atom list \<Rightarrow> string \<Rightarrow> string \<Rightarrow> string" where
  "re_sub as repl [] = (case re_run as [] of Some ps \<Rightarrow> repl | None \<Rightarrow> [])"
| "re_sub as repl (c # cs) =
     (case re_run as (c # cs) of
        None \<Rightarrow> c # re_sub as repl cs
      | Some ps \<Rightarrow>
          (if length (concat ps) = 0 then repl @ c # re_sub as repl cs
           else repl @ re_sub as repl (drop (length (concat ps) - 1) cs)))"

text \<open>\<open>r'\s*-\s*'\<close>\<close>

definition spaced_dash :: "atom list" where
  "spaced_dash = [Star Space, One (Lit CHR ''-''), Star Space]"

text \<open>\<open>r'^(WP[A-Z]+)\s*(\d+)-(.+)$'\<close>, \<open>r'^(WP[A-Z]+)\s*(\d+)\s+(.+)$'\<close> and
  \<open>r'^(WP[A-Z]+)\s*(\d+)$'\<close>\<close>

definition pattern1 :: "atom list" where
  "pattern1 =
     [GOpen, One (Lit CHR ''W''), One (Lit CHR ''P''), Plus UpperAZ, GClose, Star Space,
      GOpen, Plus Digit, GClose, One (Lit CHR ''-''), GOpen, Plus Dot, GClose, Eos]"

definition pattern2 :: "atom list" where
  "pattern2 =
     [GOpen, One (Lit CHR ''W''), One (Lit CHR ''P''), Plus UpperAZ, GClose, Star Space,
      GOpen, Plus Digit, GClose, Plus Space, GOpen, Plus Dot, GClose, Eos]"

definition pattern3 :: "atom list" where
  "pattern3 =
     [GOpen, One (Lit CHR ''W''), One (Lit CHR ''P''), Plus UpperAZ, GClose, Star Space,
      GOpen, Plus Digit, GClose, Eos]"

text \<open>The text \<open>normalize_sku\<close> matches its patterns on: trimmed, whitespace runs
  collapsed, slashes turned into dashes, spaces around dashes removed.\<close>

definition prepare :: "string \<Rightarrow> string" where
  "prepare r =
     (let sku = strip r;
          sku = join_sp (split_ws sku);
          sku = replace_char (CHR ''/'') (CHR ''-'') sku
      in re_sub spaced_dash ''-'' sku)"

text \<open>\<open>normalize_sku(raw_sku)\<close> returns \<open>(normalized, base_sku, variation)\<close>.\<close>

definition normalize_sku ::
  "string option \<Rightarrow> string option \<times> string option \<times> string option" where
  "normalize_sku raw_sku =
     (case raw_sku of
        None \<Rightarrow> (None, None, None)
      | Some r \<Rightarrow>
          if r = [] \<or> strip r = [] then (None, None, None)
          else let sku = prepare r in
            (case re_match pattern1 sku of
               Some m \<Rightarrow>
                 (let variation = strip (group m 3);
                      base_sku = group m 1 @ group m 2
                  in (Some (base_sku @ ''-'' @ variation), Some base_sku, Some variation))
             | None \<Rightarrow>
            (case re_match pattern2 sku of
               Some m \<Rightarrow>
                 (let variation = strip (group m 3);
                      base_sku = group m 1 @ group m 2
                  in (Some (base_sku @ ''-'' @ variation), Some base_sku, Some variation))
             | None \<Rightarrow>
            (case re_match pattern3 sku of
               Some m \<Rightarrow>
                 (let base_sku = group m 1 @ group m 2
                  in (Some base_sku, Some base_sku, None))
             | None \<Rightarrow>
                 (let normalized = remove_spaces sku
                  in (Some normalized, Some normalized, None))))))"

text \<open>\<open>r'\s*\(\d+\)$'\<close>\<close>

definition duplicate_suffix :: "atom list" where
  "duplicate_suffix = [Star Space, One (Lit CHR ''(''), Plus Digit, One (Lit CHR '')''), Eos]"

definition get_folder_key :: "string \<Rightarrow> string" where
  "get_folder_key folder_name =
     (let clean_name = re_sub duplicate_suffix [] folder_name
      in upper (remove_spaces clean_name))"

text \<open>
  The folder map of \<open>scan_image_folders\<close> is a dictionary from folder key to the
  folder's data. It is kept as an association list in insertion order, the order a
  Python dictionary iterates in.
\<close>

record folder_info =
  path :: string
  folder_name :: string
  images :: "string list"

type_synonym folder_map = "(string \<times> folder_info) list"

text \<open>The loop of the last stage: the first folder whose key starts with the base.\<close>

fun first_with_prefix :: "string \<Rightarrow> folder_map \<Rightarrow> folder_info option" where
  "first_with_prefix b [] = None"
| "first_with_prefix b ((folder_key, info) # rest) =
     (if startswith folder_key b then Some info else first_with_prefix b rest)"

text \<open>The key of the exact-match stage, \<open>normalized.replace(' ', '').upper()\<close>.\<close>

definition exact_key :: "string \<Rightarrow> string" where
  "exact_key normalized = upper (remove_spaces normalized)"

definition find_images_for_sku :: "string option \<Rightarrow> folder_map \<Rightarrow> string list" where
  "find_images_for_sku raw_sku fm =
     (if raw_sku = None \<or> raw_sku = Some [] then []
      else case normalize_sku raw_sku of (normalized, base_sku, variation) \<Rightarrow>
       if normalized = None \<or> normalized = Some [] then []
       else
        (case map_of fm (exact_key (the normalized)) of
           Some info \<Rightarrow> images info
         | None \<Rightarrow>
        (case (if variation \<noteq> None \<and> variation \<noteq> Some []
               then map_of fm (upper (the base_sku @ ''-'' @ remove_spaces (the variation)))
               else None) of
           Some info \<Rightarrow> images info
         | None \<Rightarrow>
        (case (if base_sku \<noteq> None \<and> base_sku \<noteq> Some []
               then map_of fm (upper (the base_sku)) else None) of
           Some info \<Rightarrow> images info
         | None \<Rightarrow>
        (case (if base_sku \<noteq> None \<and> base_sku \<noteq> Some []
               then first_with_prefix (upper (the base_sku)) fm else None) of
           Some info \<Rightarrow> images info
         | None \<Rightarrow> [])))))"

section \<open>Rows, sizes and grouping (sync\_products\_v2.py)\<close>

text \<open>
  A row is the list of its cells; \<open>row.iloc[i]\<close> raises \<open>IndexError\<close> out of range.
\<close>

datatype error = IndexError

definition iloc :: "'a list \<Rightarrow> nat \<Rightarrow> error + 'a" where
  "iloc xs i = (if i < length xs then Inr (xs ! i) else Inl IndexError)"

text \<open>\<open>SIZE_COLUMNS\<close> and the column numbers of \<open>XLSX_COLUMNS\<close> (config.py).\<close>

definition SIZE_COLUMNS :: "(nat \<times> string) list" where
  "SIZE_COLUMNS =
     [(9, ''2-3''), (10, ''3-4''), (11, ''4-5''), (12, ''6-7''),
      (13, ''7-8''), (14, ''9-10''), (15, ''11-12''), (16, ''13-14'')]"

definition col_famille :: nat where "col_famille = 1"
definition col_sku :: nat where "col_sku = 2"
definition col_price :: nat where "col_price = 3"
definition col_name :: nat where "col_name = 4"
definition col_color :: nat where "col_color = 6"
definition col_tech_description :: nat where "col_tech_description = 7"
definition col_description :: nat where "col_description = 8"

text \<open>The test of \<open>get_available_sizes\<close> on one cell:
  \<open>pd.notna(value) and str(value).strip().upper() == 'X'\<close>.\<close>

definition marked :: "cell \<Rightarrow> bool" where
  "marked value = (\<not> isna value \<and> upper (strip (str value)) = ''X'')"

definition get_available_sizes :: "cell list \<Rightarrow> string list" where
  "get_available_sizes row =
     map snd (filter (\<lambda>(col_idx, size_label).
                 marked (if col_idx < length row then row ! col_idx else PyNone)) SIZE_COLUMNS)"

record variant =
  row_idx :: nat
  row :: "cell list"
  raw_sku :: string
  var_code :: "string option"
  color :: "string option"
  sizes :: "string list"
  price :: "string option"
  name :: "string option"
  famille :: "string option"
  tech_desc :: string
  description :: string

type_synonym groups = "(string \<times> variant list) list"

text \<open>\<open>groups[base_sku].append(v)\<close> on a \<open>defaultdict(list)\<close>, kept in insertion order.\<close>

fun append_group :: "string \<Rightarrow> variant \<Rightarrow> groups \<Rightarrow> groups" where
  "append_group k v [] = [(k, [v])]"
| "append_group k v ((k', vs) # rest) =
     (if k' = k then (k', vs @ [v]) # rest else (k', vs) # append_group k v rest)"

text \<open>
  The text fields of a variant, \<open>value if pd.notna(value) else None\<close> (or \<open>''\<close>).
  Every later use of such a field tests its truth value first and then reads
  \<open>str(field)\<close>, so a string is kept as it is, any other value that is true is kept as
  its text, and one that is false (the number \<open>0\<close>) is kept as \<open>None\<close> (or \<open>''\<close>),
  which those tests treat alike.
\<close>

fun text_or_none :: "cell \<Rightarrow> string option" where
  "text_or_none NA = None"
| "text_or_none PyNone = None"
| "text_or_none (Text t) = Some t"
| "text_or_none (Other b s) = (if b then Some s else None)"

fun text_or_empty :: "cell \<Rightarrow> string" where
  "text_or_empty NA = []"
| "text_or_empty PyNone = []"
| "text_or_empty (Text t) = t"
| "text_or_empty (Other b s) = (if b then s else [])"

text \<open>
  One turn of the loop of \<open>group_rows_by_base_sku\<close>. \<open>clean_price\<close> rounds a floating
  point number and is taken as a parameter. Building the variant reads the columns up
  to \<open>description\<close> (8), so a shorter row raises.
\<close>

definition group_row ::
  "(cell \<Rightarrow> string option) \<Rightarrow> nat \<Rightarrow> cell list \<Rightarrow> groups \<Rightarrow> error + groups" where
  "group_row clean_price idx r gs =
     (case iloc r col_sku of
        Inl e \<Rightarrow> Inl e
      | Inr raw \<Rightarrow>
          if isna raw then Inr gs
          else
          (case parse_sku raw of
             (None, vc) \<Rightarrow> Inr gs
           | (Some base_sku, vc) \<Rightarrow>
               if base_sku = [] then Inr gs
               else if length r \<le> col_description then Inl IndexError
               else Inr (append_group base_sku
                  \<lparr> row_idx = idx,
                    row = r,
                    raw_sku = strip (str raw),
                    var_code = vc,
                    color = (if isna (r ! col_color) then vc else text_or_none (r ! col_color)),
                    sizes = get_available_sizes r,
                    price = clean_price (r ! col_price),
                    name = text_or_none (r ! col_name),
                    famille = text_or_none (r ! col_famille),
                    tech_desc = text_or_empty (r ! col_tech_description),
                    description = text_or_empty (r ! col_description) \<rparr> gs)))"

fun group_loop ::
  "(cell \<Rightarrow> string option) \<Rightarrow> cell list list \<Rightarrow> nat list \<Rightarrow> groups \<Rightarrow> error + groups" where
  "group_loop clean_price df [] gs = Inr gs"
| "group_loop clean_price df (idx # rest) gs =
     (case iloc df idx of
        Inl e \<Rightarrow> Inl e
      | Inr r \<Rightarrow>
          (case group_row clean_price idx r gs of
             Inl e \<Rightarrow> Inl e
           | Inr gs' \<Rightarrow> group_loop clean_price df rest gs'))"

definition group_rows_by_base_sku ::
  "(cell \<Rightarrow> string option) \<Rightarrow> cell list list \<Rightarrow> nat \<Rightarrow> nat \<Rightarrow> error + groups" where
  "group_rows_by_base_sku clean_price df start_row end_row =
     group_loop clean_price df [start_row ..< end_row] []"

section \<open>Projection of a group: name and colours (create\_product\_from\_group)\<close>

text \<open>The loop that takes the product name: the first variant whose \<open>name\<close> is truthy
  gives \<open>str(v['name']).strip()\<close>, and the loop stops there.\<close>

fun first_name :: "variant list \<Rightarrow> string option" where
  "first_name [] = None"
| "first_name (v # vs) =
     (case name v of
        None \<Rightarrow> first_name vs
      | Some n \<Rightarrow> if n = [] then first_name vs else Some (strip n))"

datatype outcome = Raised error | Skipped string | Named string

text \<open>
  Lines 223 to 239: \<open>variants[0]\<close>, the name loop, the name of the existing product
  when there is one (\<open>existing_name\<close>, \<open>None\<close> when the store has no such product), and
  the skip with reason \<open>no_name\<close>.
\<close>

definition product_name_step :: "variant list \<Rightarrow> string option \<Rightarrow> outcome" where
  "product_name_step variants existing_name =
     (case variants of
        [] \<Rightarrow> Raised IndexError
      | first_variant # _ \<Rightarrow>
          (let product_name = first_name variants;
               product_name =
                 (if (product_name = None \<or> product_name = Some []) \<and> existing_name \<noteq> None
                  then existing_name else product_name)
           in case product_name of
                None \<Rightarrow> Skipped ''no_name''
              | Some n \<Rightarrow> if n = [] then Skipped ''no_name'' else Named n))"

text \<open>The colours collected over the variants (lines 252 to 257), in first-seen order.\<close>

fun collect_colors :: "variant list \<Rightarrow> string list \<Rightarrow> string list" where
  "collect_colors [] all_colors = all_colors"
| "collect_colors (v # vs) all_colors =
     (case color v of
        None \<Rightarrow> collect_colors vs all_colors
      | Some c \<Rightarrow>
          if c \<noteq> [] \<and> strip c \<noteq> [] \<and> strip c \<notin> set all_colors
          then collect_colors vs (all_colors @ [strip c])
          else collect_colors vs all_colors)"

section \<open>Vocabulary of the statements\<close>

text \<open>The groups with each variant reduced to the row it was built from.\<close>

definition keyed_rows :: "groups \<Rightarrow> (string \<times> cell list list) list" where
  "keyed_rows gs = map (\<lambda>(k, vs). (k, map row vs)) gs"

text \<open>A row with the given text in its SKU column.\<close>

definition with_sku :: "cell list \<Rightarrow> string \<Rightarrow> cell list" where
  "with_sku r s = r[col_sku := Text s]"

text \<open>Following the specification's words (section 6): a cell counts as present iff it
  is non-blank after trimming.\<close>

definition spec_present :: "cell \<Rightarrow> bool" where
  "spec_present c = (\<not> isna c \<and> strip (str c) \<noteq> [])"

text \<open>A variant with the given name cell, for concrete groups.\<close>

definition named_variant :: "string option \<Rightarrow> variant" where
  "named_variant n =
     \<lparr> row_idx = 0, row = [], raw_sku = ''WPJF 001'', var_code = None, color = None,
       sizes = [''2-3''], price = None, name = n, famille = None, tech_desc = [],
       description = [] \<rparr>"

text \<open>Following the specification's words (section 4.1): an input that is absent or
  blank after trimming.\<close>

definition absent_or_blank :: "cell \<Rightarrow> bool" where
  "absent_or_blank raw = (raw = PyNone \<or> strip (str raw) = [])"

text \<open>The guard of \<open>parse_sku\<close> in words: the value is false, or its text is blank
  after trimming.\<close>

definition falsy_or_blank :: "cell \<Rightarrow> bool" where
  "falsy_or_blank raw = (\<not> truthy raw \<or> strip (str raw) = [])"

text \<open>A raw SKU string that is absent or blank after trimming.\<close>

definition blank :: "string option \<Rightarrow> bool" where
  "blank raw = (case raw of None \<Rightarrow> True | Some r \<Rightarrow> strip r = [])"

text \<open>A row and the variant the grouper builds from it, for concrete inputs.\<close>

definition example_row :: "cell list" where
  "example_row = [NA, NA, Text ''WPJF 001-127'', NA, NA, NA, NA, NA, NA]"

definition example_variant :: variant where
  "example_variant =
     \<lparr> row_idx = 0, row = example_row, raw_sku = ''WPJF 001-127'', var_code = Some ''127'',
       color = Some ''127'', sizes = [], price = None, name = None, famille = None,
       tech_desc = [], description = [] \<rparr>"

text \<open>What the grouper establishes for each variant it stores: the variant code is the
  parsed variation of the row's SKU cell, and the colour is the colour cell, or the
  variant code when that cell is empty.\<close>

definition tracked :: "variant \<Rightarrow> bool" where
  "tracked v \<longleftrightarrow>
     col_sku < length (row v) \<and> \<not> isna (row v ! col_sku)
     \<and> var_code v = snd (parse_sku (row v ! col_sku))
     \<and> color v = (if isna (row v ! col_color) then var_code v
                  else text_or_none (row v ! col_color))"

definition all_tracked :: "groups \<Rightarrow> bool" where
  "all_tracked gs \<longleftrightarrow> (\<forall>(k, vs) \<in> set gs. \<forall>v \<in> set vs. tracked v)"

text \<open>
  The four stages of the image cascade in order, each the folder it finds or \<open>None\<close>:
  the exact key, the base plus the variation without spaces (when there is a variation),
  the base alone, and the first folder whose key starts with the base.
\<close>

definition stage_hits :: "string option \<Rightarrow> folder_map \<Rightarrow> folder_info option list" where
  "stage_hits raw fm =
     (case normalize_sku raw of
        (Some n, Some b, v) \<Rightarrow>
          [map_of fm (upper (remove_spaces n)),
           (case v of
              Some x \<Rightarrow> if x = [] then None else map_of fm (upper (b @ ''-'' @ remove_spaces x))
            | None \<Rightarrow> None),
           map_of fm (upper b),
           map_option snd (find (\<lambda>(k, i). startswith k (upper b)) fm)]
      | _ \<Rightarrow> [])"

text \<open>The first stage that finds a folder.\<close>

definition first_hit :: "folder_info option list \<Rightarrow> folder_info option" where
  "first_hit hs = (case find (\<lambda>h. h \<noteq> None) hs of Some h \<Rightarrow> h | None \<Rightarrow> None)"

text \<open>Following the specification's words (section 4.4, "returning the first non-empty
  match"): the images of the first stage whose folder has images.\<close>

definition spec_resolve :: "string option \<Rightarrow> folder_map \<Rightarrow> string list" where
  "spec_resolve raw fm =
     (case find (\<lambda>h. case h of Some i \<Rightarrow> images i \<noteq> [] | None \<Rightarrow> False) (stage_hits raw fm) of
        Some (Some i) \<Rightarrow> images i
      | _ \<Rightarrow> [])"

text \<open>An index in which the exact folder exists but holds no image, and an index with
  the base folder only.\<close>

definition base_folder :: folder_info where
  "base_folder =
     \<lparr>path = ''images/WPJF001'', folder_name = ''WPJF001'', images = [''images/WPJF001/a.jpg'']\<rparr>"

definition example_index :: folder_map where
  "example_index =
     [(''WPJF001-999'',
       \<lparr>path = ''images/WPJF001-999'', folder_name = ''WPJF001-999'', images = []\<rparr>),
      (''WPJF001'', base_folder)]"

definition base_only_index :: folder_map where
  "base_only_index = [(''WPJF001'', base_folder)]"




text \<open>A text whose only whitespace characters are plain spaces.\<close>

definition plain_spaces :: "string \<Rightarrow> bool" where
  "plain_spaces s = list_all (\<lambda>c. is_space c \<longrightarrow> c = CHR '' '') s"


section \<open>The SKU parser on the documented examples\<close>

text \<open>
  Claim C4. \<open>parse_sku\<close> maps \<open>"WPJF 001-127"\<close> to base \<open>"WPJF 001"\<close> with variation
  \<open>"127"\<close>, \<open>"WPJF 001 -120"\<close> to base \<open>"WPJF 001"\<close> with variation \<open>"120"\<close>,
  \<open>"WPMF001 ROSE -39"\<close> to base \<open>"WPMF001"\<close> with variation \<open>"39"\<close> (the numeric dash
  variation is kept, the descriptor \<open>ROSE\<close> is dropped from the base by the deep parse),
  and \<open>"WPJF 0012 BLUE MEDIUM"\<close> to base \<open>"WPJF 0012"\<close> with variation \<open>"BLUE MEDIUM"\<close>.
\<close>

theorem parse_sku_examples:
  "parse_sku (Text ''WPJF 001-127'') = (Some ''WPJF 001'', Some ''127'')
   \<and> parse_sku (Text ''WPJF 001 -120'') = (Some ''WPJF 001'', Some ''120'')
   \<and> parse_sku (Text ''WPMF001 ROSE -39'') = (Some ''WPMF001'', Some ''39'')
   \<and> parse_sku (Text ''WPJF 0012 BLUE MEDIUM'') = (Some ''WPJF 0012'', Some ''BLUE MEDIUM'')"
  by code_simp

text \<open>The first example passes the guard of \<open>parse_sku\<close>: its value is true and its text
  is not blank.\<close>

theorem parse_sku_examples_witness:
  "truthy (Text ''WPJF 001-127'') \<and> strip (str (Text ''WPJF 001-127'')) \<noteq> []
   \<and> parse_sku (Text ''WPJF 001-127'') = (Some ''WPJF 001'', Some ''127'')"
proof -
  have "truthy (Text ''WPJF 001-127'')" by simp
  moreover have "strip (str (Text ''WPJF 001-127'')) \<noteq> []" by code_simp
  ultimately show ?thesis using parse_sku_examples by simp
qed

section \<open>Grouping three rows\<close>

lemma parse_A: "parse_sku (Text ''WPJF001-A'') = (Some ''WPJF001-A'', None)" by code_simp
lemma parse_B: "parse_sku (Text ''WPJF001-B'') = (Some ''WPJF001-B'', None)" by code_simp
lemma parse_G: "parse_sku (Text ''WPGR002'') = (Some ''WPGR002'', None)" by code_simp
lemma parse_1: "parse_sku (Text ''WPJF001-1'') = (Some ''WPJF001'', Some ''1'')" by code_simp
lemma parse_2: "parse_sku (Text ''WPJF001-2'') = (Some ''WPJF001'', Some ''2'')" by code_simp

lemma upt_0_3: "[0 ..< 3] = [0, 1, 2::nat]" by (simp add: upt_rec)

text \<open>
  Claim C1, as stated, fails: the dash pattern of \<open>parse_sku\<close> splits off a numeric
  suffix only, so \<open>"WPJF001-A"\<close> and \<open>"WPJF001-B"\<close> are their own bases and the three
  rows make three groups.
\<close>

theorem grouping_three_rows_counterexample:
  "map_sum id keyed_rows
     (group_rows_by_base_sku (\<lambda>c. None)
        [with_sku (replicate 9 NA) ''WPJF001-A'', with_sku (replicate 9 NA) ''WPJF001-B'',
         with_sku (replicate 9 NA) ''WPGR002''] 0 3)
   = Inr [(''WPJF001-A'', [with_sku (replicate 9 NA) ''WPJF001-A'']),
          (''WPJF001-B'', [with_sku (replicate 9 NA) ''WPJF001-B'']),
          (''WPGR002'', [with_sku (replicate 9 NA) ''WPGR002''])]"
  by (simp add: group_rows_by_base_sku_def upt_0_3 iloc_def group_row_def with_sku_def
      col_sku_def col_description_def parse_A parse_B parse_G keyed_rows_def)

text \<open>
  Claim C1, amended. Grouping three rows (of at least nine columns, all fields other
  than the SKU arbitrary) whose SKUs are \<open>"WPJF001-A"\<close>, \<open>"WPJF001-B"\<close>, \<open>"WPGR002"\<close>
  produces three groups in row order, each keyed by the whole SKU and holding its own
  row. With numeric suffixes, \<open>"WPJF001-1"\<close>, \<open>"WPJF001-2"\<close>, \<open>"WPGR002"\<close>, it produces
  exactly two groups: \<open>"WPJF001"\<close> with the first two rows in their original order and
  \<open>"WPGR002"\<close> with the third.
\<close>

theorem grouping_three_rows:
  assumes "8 < length r1" and "8 < length r2" and "8 < length r3"
  shows "map_sum id keyed_rows
           (group_rows_by_base_sku clean_price
              [with_sku r1 ''WPJF001-A'', with_sku r2 ''WPJF001-B'', with_sku r3 ''WPGR002''] 0 3)
         = Inr [(''WPJF001-A'', [with_sku r1 ''WPJF001-A'']),
                (''WPJF001-B'', [with_sku r2 ''WPJF001-B'']),
                (''WPGR002'', [with_sku r3 ''WPGR002''])]
       \<and> map_sum id keyed_rows
           (group_rows_by_base_sku clean_price
              [with_sku r1 ''WPJF001-1'', with_sku r2 ''WPJF001-2'', with_sku r3 ''WPGR002''] 0 3)
         = Inr [(''WPJF001'', [with_sku r1 ''WPJF001-1'', with_sku r2 ''WPJF001-2'']),
                (''WPGR002'', [with_sku r3 ''WPGR002''])]"
  using assms
  by (simp add: group_rows_by_base_sku_def upt_0_3 iloc_def group_row_def with_sku_def
      col_sku_def col_description_def parse_A parse_B parse_G parse_1 parse_2 keyed_rows_def)

theorem grouping_three_rows_witness:
  "8 < length (replicate 9 NA) \<and>
   map_sum id keyed_rows
     (group_rows_by_base_sku (\<lambda>c. None)
        [with_sku (replicate 9 NA) ''WPJF001-1'', with_sku (replicate 9 NA) ''WPJF001-2'',
         with_sku (replicate 9 NA) ''WPGR002''] 0 3)
   = Inr [(''WPJF001'', [with_sku (replicate 9 NA) ''WPJF001-1'',
                         with_sku (replicate 9 NA) ''WPJF001-2'']),
          (''WPGR002'', [with_sku (replicate 9 NA) ''WPGR002''])]"
  using grouping_three_rows [of "replicate 9 NA" "replicate 9 NA" "replicate 9 NA" "\<lambda>c. None"]
  by simp

section \<open>Size columns\<close>

text \<open>
  Claim C6, as stated, fails: a size cell holding \<open>"2"\<close> is non-blank after trimming,
  yet its label is not among the row's sizes.
\<close>

theorem size_present_counterexample:
  "spec_present ((replicate 9 NA @ [Text ''2'']) ! 9)
   \<and> ''2-3'' \<notin> set (get_available_sizes (replicate 9 NA @ [Text ''2'']))"
  by code_simp

lemma SIZE_COLUMNS_label:
  "(i, l) \<in> set SIZE_COLUMNS \<Longrightarrow> (j, l) \<in> set SIZE_COLUMNS \<Longrightarrow> j = i"
  by (auto simp: SIZE_COLUMNS_def)

text \<open>
  Claim C6, amended. For every row and every size column (offsets 9 through 16), the
  column's size label is among the row's sizes if and only if the row has a cell at that
  offset and the cell is marked: it is not empty and its text, trimmed and uppercased,
  is \<open>"X"\<close>.
\<close>

theorem size_included_iff_marked:
  assumes "(i, l) \<in> set SIZE_COLUMNS"
  shows "l \<in> set (get_available_sizes r) \<longleftrightarrow> i < length r \<and> marked (r ! i)"
proof -
  have nm: "\<not> marked PyNone" by (simp add: marked_def)
  have "l \<in> set (get_available_sizes r) \<longleftrightarrow>
        (\<exists>j. (j, l) \<in> set SIZE_COLUMNS \<and> marked (if j < length r then r ! j else PyNone))"
    by (force simp: get_available_sizes_def)
  also have "\<dots> \<longleftrightarrow> marked (if i < length r then r ! i else PyNone)"
    using assms SIZE_COLUMNS_label by blast
  also have "\<dots> \<longleftrightarrow> i < length r \<and> marked (r ! i)"
    using nm by simp
  finally show ?thesis .
qed

theorem size_included_iff_marked_witness:
  "(9, ''2-3'') \<in> set SIZE_COLUMNS
   \<and> ''2-3'' \<in> set (get_available_sizes (replicate 9 NA @ [Text '' x '']))
   \<and> 9 < length (replicate 9 NA @ [Text '' x '']) \<and> marked ((replicate 9 NA @ [Text '' x '']) ! 9)"
proof -
  have m: "(9, ''2-3'') \<in> set SIZE_COLUMNS" by (simp add: SIZE_COLUMNS_def)
  have x: "marked ((replicate 9 NA @ [Text '' x '']) ! 9)" by code_simp
  show ?thesis
    using size_included_iff_marked [OF m, of "replicate 9 NA @ [Text '' x '']"] m x by simp
qed

section \<open>The representative name of a group\<close>

text \<open>
  Claim C8 at a group whose first variant has a whitespace-only name and whose second
  variant is named \<open>"Robe"\<close>, with no product in the store: the name loop stops at the
  first variant, its trimmed name is empty, and the group is skipped with reason
  \<open>no_name\<close> although a later variant has a non-blank name.
\<close>

theorem blank_first_name_skips_group:
  "product_name_step [named_variant (Some ''  ''), named_variant (Some ''Robe'')] None
     = Skipped ''no_name''"
  by code_simp

section \<open>Facts about trimming, splitting and joining\<close>

lemma strip_Nil [simp]: "strip [] = []"
  by (simp add: strip_def)

lemma strip_eq_Nil_iff: "strip s = [] \<longleftrightarrow> (\<forall>c \<in> set s. is_space c)"
proof -
  have "strip s = [] \<longleftrightarrow> (\<forall>c \<in> set (dropWhile is_space s). is_space c)"
    by (simp add: strip_def dropWhile_eq_Nil_conv)
  also have "\<dots> \<longleftrightarrow> (\<forall>c \<in> set s. is_space c)"
  proof
    assume a: "\<forall>c \<in> set (dropWhile is_space s). is_space c"
    show "\<forall>c \<in> set s. is_space c"
    proof (cases "dropWhile is_space s")
      case Nil
      then show ?thesis by (simp add: dropWhile_eq_Nil_conv)
    next
      case (Cons d ds)
      then have "\<not> is_space d" using hd_dropWhile [of is_space s] by simp
      with a Cons show ?thesis by simp
    qed
  next
    assume "\<forall>c \<in> set s. is_space c"
    then show "\<forall>c \<in> set (dropWhile is_space s). is_space c"
      by (meson set_dropWhileD)
  qed
  finally show ?thesis .
qed

lemma hd_strip:
  assumes "strip s \<noteq> []"
  shows "\<not> is_space (hd (strip s))"
proof -
  let ?d = "dropWhile is_space s"
  let ?e = "dropWhile is_space (rev ?d)"
  have d: "?d \<noteq> []"
  proof
    assume "?d = []"
    have "strip s = rev (dropWhile is_space (rev ?d))" by (simp only: strip_def)
    also have "\<dots> = []" by (simp only: \<open>?d = []\<close> rev.simps dropWhile.simps)
    finally show False using assms by simp
  qed
  then have h: "\<not> is_space (hd ?d)" using hd_dropWhile by blast
  from assms have e: "?e \<noteq> []" by (simp add: strip_def)
  have "rev ?d = takeWhile is_space (rev ?d) @ ?e" by simp
  then have "?d = rev ?e @ rev (takeWhile is_space (rev ?d))"
    by (metis rev_append rev_rev_ident)
  moreover have "rev ?e \<noteq> []" using e by simp
  ultimately have "hd ?d = hd (rev ?e)" by (metis hd_append2)
  with h show ?thesis by (simp add: strip_def)
qed

lemma split_aux_words:
  "u \<in> set (split_aux s w) \<Longrightarrow> u \<noteq> []"
  by (induction s arbitrary: w) (auto split: if_splits)

lemma split_aux_hd:
  assumes "w \<noteq> [] \<or> (\<exists>c \<in> set s. \<not> is_space c)"
  shows "split_aux s w \<noteq> [] \<and>
         hd (hd (split_aux s w)) = (if w \<noteq> [] then hd w else hd (dropWhile is_space s))"
  using assms
proof (induction s arbitrary: w)
  case Nil
  then show ?case by simp
next
  case (Cons c cs)
  show ?case
  proof (cases "is_space c")
    case True
    show ?thesis
    proof (cases "w = []")
      case True
      with \<open>is_space c\<close> Cons.prems have "\<exists>d \<in> set cs. \<not> is_space d" by auto
      then show ?thesis using Cons.IH [of "[]"] True \<open>is_space c\<close> by simp
    next
      case False
      then show ?thesis using \<open>is_space c\<close> by simp
    qed
  next
    case False
    then show ?thesis using Cons.IH [of "w @ [c]"] by simp
  qed
qed

lemma join_sp_hd: "ws \<noteq> [] \<Longrightarrow> hd ws \<noteq> [] \<Longrightarrow> join_sp ws \<noteq> [] \<and> hd (join_sp ws) = hd (hd ws)"
  by (induction ws rule: join_sp.induct) auto

lemma collapse_hd:
  assumes "strip r \<noteq> []"
  shows "join_sp (split_ws (strip r)) \<noteq> [] \<and> \<not> is_space (hd (join_sp (split_ws (strip r))))"
proof -
  let ?s = "strip r"
  have ex: "\<exists>c \<in> set ?s. \<not> is_space c"
    using assms hd_strip [OF assms] hd_in_set by blast
  have h: "\<not> is_space (hd ?s)" by (rule hd_strip [OF assms])
  then have dw: "dropWhile is_space ?s = ?s" using assms by (cases ?s) auto
  from split_aux_hd [of "[]" ?s] ex
  have a: "split_ws ?s \<noteq> []" and b: "hd (hd (split_ws ?s)) = hd ?s"
    by (simp_all add: split_ws_def dw)
  have c: "hd (split_ws ?s) \<noteq> []"
    using a split_aux_words [of "hd (split_ws ?s)" ?s "[]"] by (simp add: split_ws_def)
  from join_sp_hd [OF a c] b h show ?thesis by simp
qed

section \<open>Facts about the matcher\<close>

lemma consumed_Some: "consumed c x = Some ps \<Longrightarrow> \<exists>p qs. x = Some (p # qs) \<and> ps = (c # p) # qs"
  by (cases "(c, x)" rule: consumed.cases) auto

lemma orelse_Some: "orelse a b = Some x \<Longrightarrow> a = Some x \<or> (a = None \<and> b = Some x)"
  by (cases a) auto

lemma re_run_length: "re_run as s = Some ps \<Longrightarrow> length ps = length as"
proof (induction as s arbitrary: ps rule: re_run.induct)
  case (8 k as c cs)
  from orelse_Some [OF "8.prems" [unfolded re_run.simps]] show ?case
  proof
    assume "(if in_cls k c then consumed c (re_run (Star k # as) cs) else None) = Some ps"
    then show ?thesis using "8.IH"(1) by (auto split: if_splits dest!: consumed_Some)
  next
    assume "(if in_cls k c then consumed c (re_run (Star k # as) cs) else None) = None \<and>
      map_option ((#) []) (re_run as (c # cs)) = Some ps"
    then show ?thesis using "8.IH"(2) by auto
  qed
next
  case (12 k as c cs)
  from orelse_Some [OF "12.prems" [unfolded re_run.simps]] show ?case
  proof
    assume "map_option ((#) []) (re_run as (c # cs)) = Some ps"
    then show ?thesis using "12.IH"(1) by auto
  next
    assume "map_option ((#) []) (re_run as (c # cs)) = None \<and>
      (if in_cls k c then consumed c (re_run (LazyStar k # as) cs) else None) = Some ps"
    then show ?thesis using "12.IH"(2) by (auto split: if_splits dest!: consumed_Some)
  qed
qed (auto split: if_splits dest!: consumed_Some)

section \<open>The parser never fails and never returns an empty base\<close>

lemma dash_group1:
  assumes "re_match dash_pattern s = Some m"
  shows "\<exists>c p cs. s = c # cs \<and> group m 1 = c # p"
proof -
  from assms obtain ps where r: "re_run dash_pattern s = Some ps"
    and m: "m = collect (zip dash_pattern ps) None"
    by (auto simp: re_match_def)
  from re_run_length [OF r] have len: "length ps = 10" by (simp add: dash_pattern_def)
  from r obtain c cs where s: "s = c # cs" by (cases s) (auto simp: dash_pattern_def)
  from r s obtain p qs where ps: "ps = [] # (c # p) # qs"
    by (auto simp: dash_pattern_def split: if_splits dest!: consumed_Some)
  from len ps obtain q qs' where qs: "qs = q # qs'" by (cases qs) auto
  have "group m 1 = c # p" by (simp add: m ps qs dash_pattern_def group_def)
  with s show ?thesis by blast
qed

lemma space_group1:
  assumes "re_match space_pattern s = Some m"
  shows "\<exists>p. group m 1 = CHR ''W'' # p"
proof -
  from assms obtain ps where r: "re_run space_pattern s = Some ps"
    and m: "m = collect (zip space_pattern ps) None"
    by (auto simp: re_match_def)
  from re_run_length [OF r] have len: "length ps = 12" by (simp add: space_pattern_def)
  from r obtain s1 where s: "s = CHR ''W'' # s1"
    by (cases s) (auto simp: space_pattern_def split: if_splits)
  from r s obtain qs where ps: "ps = [] # [CHR ''W''] # qs"
    by (auto simp: space_pattern_def)
  from len ps have "length qs = Suc (Suc (Suc (Suc (Suc (Suc (Suc (Suc (Suc (Suc 0)))))))))"
    by simp
  then obtain q1 q2 q3 q4 q5 qs' where qs: "qs = q1 # q2 # q3 # q4 # q5 # qs'"
    by (auto simp: length_Suc_conv)
  have "group m 1 = CHR ''W'' # q1 @ q2 @ q3 @ q4" by (simp add: m ps qs space_pattern_def group_def)
  then show ?thesis by blast
qed

lemma strip_Cons_nonspace: "\<not> is_space c \<Longrightarrow> strip (c # p) \<noteq> []"
  by (auto simp: strip_eq_Nil_iff)

lemma is_space_W: "\<not> is_space (CHR ''W'')"
  by (simp add: is_space_def)

lemma first_parse_base:
  assumes "sku \<noteq> []" and "\<not> is_space (hd sku)"
  shows "fst (first_parse sku) \<noteq> []"
proof (cases "re_match dash_pattern sku")
  case (Some m)
  from dash_group1 [OF Some] obtain c p cs where "sku = c # cs" "group m 1 = c # p" by blast
  with assms Some show ?thesis by (simp add: first_parse_def strip_Cons_nonspace)
next
  case None
  show ?thesis
  proof (cases "re_match space_pattern sku")
    case (Some m)
    from space_group1 [OF Some] obtain p where "group m 1 = CHR ''W'' # p" by blast
    with None Some show ?thesis by (simp add: first_parse_def strip_Cons_nonspace is_space_W)
  next
    case None
    with \<open>re_match dash_pattern sku = None\<close> assms show ?thesis by (simp add: first_parse_def)
  qed
qed

lemma deep_parse_base:
  assumes "fst bv \<noteq> []"
  shows "fst (deep_parse bv) \<noteq> []"
proof (cases "re_match space_pattern (fst bv)")
  case None
  with assms show ?thesis by (simp add: deep_parse_def Let_def)
next
  case (Some m)
  from space_group1 [OF Some] obtain p where "group m 1 = CHR ''W'' # p" by blast
  with Some assms show ?thesis
    by (simp add: deep_parse_def Let_def strip_Cons_nonspace is_space_W)
qed

text \<open>
  Claim C7, as stated, fails: the guard of \<open>parse_sku\<close> tests the truth value of the raw
  value before its text, so the number \<open>0\<close>, which is neither absent nor blank after
  trimming, gives \<open>(None, None)\<close> and not a non-empty base.
\<close>

theorem parse_sku_zero_counterexample:
  "\<not> absent_or_blank (Other False ''0'') \<and> parse_sku (Other False ''0'') = (None, None)"
  by code_simp

text \<open>
  Claim C7, amended. \<open>parse_sku\<close> is total: when the input is false as a value
  (\<open>None\<close>, the empty string, a number equal to zero, \<open>False\<close>) or its text is blank
  after trimming, it returns \<open>(None, None)\<close>, which covers every input that is absent or
  blank after trimming; otherwise it returns a pair whose base is a non-empty string.
  The model has no raising branch: the only partial operation of the source,
  \<open>match.group(i)\<close>, is applied to patterns that have that group.
\<close>

theorem parse_sku_total:
  "(absent_or_blank raw \<longrightarrow> parse_sku raw = (None, None))
   \<and> (if falsy_or_blank raw then parse_sku raw = (None, None)
      else (\<exists>base. fst (parse_sku raw) = Some base \<and> base \<noteq> []))"
proof (cases "falsy_or_blank raw")
  case True
  then have "parse_sku raw = (None, None)"
    by (auto simp: falsy_or_blank_def parse_sku_def)
  with True show ?thesis by simp
next
  case False
  then have t: "truthy raw" and b: "strip (str raw) \<noteq> []"
    by (simp_all add: falsy_or_blank_def)
  from t have "raw \<noteq> PyNone" by auto
  with b have nab: "\<not> absent_or_blank raw" by (simp add: absent_or_blank_def)
  from collapse_hd [OF b]
  have "fst (deep_parse (first_parse (join_sp (split_ws (strip (str raw)))))) \<noteq> []"
    by (intro deep_parse_base first_parse_base) simp_all
  with t b have "\<exists>base. fst (parse_sku raw) = Some base \<and> base \<noteq> []"
    by (simp add: parse_sku_def Let_def)
  with False nab show ?thesis by simp
qed

theorem parse_sku_total_witness:
  "absent_or_blank (Text ''   '') \<and> parse_sku (Text ''   '') = (None, None)
   \<and> falsy_or_blank (Other False ''0'') \<and> parse_sku (Other False ''0'') = (None, None)
   \<and> \<not> falsy_or_blank (Text ''WPMF001 ROSE -39'')
   \<and> (\<exists>base. fst (parse_sku (Text ''WPMF001 ROSE -39'')) = Some base \<and> base \<noteq> [])"
proof -
  have b1: "absent_or_blank (Text ''   '')" by code_simp
  have b2: "falsy_or_blank (Other False ''0'')" by code_simp
  have b3: "\<not> falsy_or_blank (Text ''WPMF001 ROSE -39'')" by code_simp
  show ?thesis
    using parse_sku_total [of "Text ''   ''"] parse_sku_total [of "Other False ''0''"]
      parse_sku_total [of "Text ''WPMF001 ROSE -39''"] b1 b2 b3
    by simp
qed

section \<open>The colour of a variant whose colour cell is empty\<close>

lemma all_tracked_append_group:
  "all_tracked gs \<Longrightarrow> tracked v \<Longrightarrow> all_tracked (append_group k v gs)"
  by (induction k v gs rule: append_group.induct) (auto simp: all_tracked_def)

lemma group_row_tracked:
  assumes "group_row cp idx r gs = Inr gs'" and "all_tracked gs"
  shows "all_tracked gs'"
proof (cases "iloc r col_sku")
  case (Inl e)
  with assms show ?thesis by (simp add: group_row_def)
next
  case (Inr c)
  then have len: "col_sku < length r" and c: "c = r ! col_sku"
    by (auto simp: iloc_def split: if_splits)
  show ?thesis
  proof (cases "isna c")
    case True
    with Inr assms show ?thesis by (simp add: group_row_def)
  next
    case notna: False
    obtain b vc where p: "parse_sku c = (b, vc)" by (cases "parse_sku c")
    show ?thesis
    proof (cases b)
      case None
      with Inr notna p assms show ?thesis by (simp add: group_row_def)
    next
      case (Some base)
      show ?thesis
      proof (cases "base = [] \<or> length r \<le> col_description")
        case True
        with Inr notna p Some assms show ?thesis
          by (auto simp: group_row_def split: if_splits)
      next
        case False
        let ?v = "\<lparr> row_idx = idx, row = r, raw_sku = strip (str c), var_code = vc,
                    color = (if isna (r ! col_color) then vc else text_or_none (r ! col_color)),
                    sizes = get_available_sizes r, price = cp (r ! col_price),
                    name = text_or_none (r ! col_name), famille = text_or_none (r ! col_famille),
                    tech_desc = text_or_empty (r ! col_tech_description),
                    description = text_or_empty (r ! col_description) \<rparr>"
        from False Inr notna p Some assms have g: "gs' = append_group base ?v gs"
          by (simp add: group_row_def)
        have "tracked ?v"
          unfolding tracked_def using len c notna p by simp
        with assms(2) g show ?thesis by (simp add: all_tracked_append_group)
      qed
    qed
  qed
qed

lemma group_loop_tracked:
  "group_loop cp df idxs gs = Inr gs' \<Longrightarrow> all_tracked gs \<Longrightarrow> all_tracked gs'"
proof (induction idxs arbitrary: gs)
  case Nil
  then show ?case by simp
next
  case (Cons idx rest)
  from Cons.prems(1) obtain r gs1 where "group_row cp idx r gs = Inr gs1"
    and "group_loop cp df rest gs1 = Inr gs'"
    by (auto split: sum.splits)
  with Cons.IH Cons.prems(2) group_row_tracked show ?case by blast
qed

lemma collect_colors_mono: "set acc \<subseteq> set (collect_colors vs acc)"
proof (induction vs arbitrary: acc)
  case Nil
  then show ?case by simp
next
  case (Cons w ws)
  show ?case
    using Cons.IH [of acc] Cons.IH [of "acc @ [strip (the (color w))]"]
    by (auto split: option.splits)
qed

lemma collect_colors_member:
  assumes "v \<in> set vs" and "color v = Some c" and "strip c \<noteq> []"
  shows "strip c \<in> set (collect_colors vs acc)"
  using assms
proof (induction vs arbitrary: acc)
  case Nil
  then show ?case by simp
next
  case (Cons w ws)
  have ne: "c \<noteq> []" using Cons.prems(3) by auto
  show ?case
  proof (cases "v = w")
    case True
    have "strip c \<in> set (collect_colors ws (if strip c \<in> set acc then acc else acc @ [strip c]))"
      using collect_colors_mono [of "if strip c \<in> set acc then acc else acc @ [strip c]" ws]
      by auto
    with True Cons.prems ne show ?thesis by (auto split: if_splits)
  next
    case False
    with Cons.prems have "v \<in> set ws" by simp
    from Cons.IH [OF this Cons.prems(2,3)] show ?thesis
      by (simp split: option.splits)
  qed
qed

text \<open>
  Claim C9. For every variant the grouper keeps whose row has an empty colour cell
  (\<open>pd.isna\<close>), the
  variant's colour is the variation token parsed from the row's SKU (absent when the
  token is absent), and a token that is not blank is then among the colour options
  collected for the group.
\<close>

theorem absent_color_takes_variation:
  assumes "group_rows_by_base_sku clean_price df start_row end_row = Inr gs"
    and "(k, vs) \<in> set gs" and "v \<in> set vs" and "isna (row v ! col_color)"
  shows "color v = snd (parse_sku (row v ! col_sku))
       \<and> (case color v of None \<Rightarrow> True
           | Some c \<Rightarrow> strip c = [] \<or> strip c \<in> set (collect_colors vs []))"
proof -
  have "all_tracked []" by (simp add: all_tracked_def)
  with assms(1) have "all_tracked gs"
    unfolding group_rows_by_base_sku_def by (rule group_loop_tracked)
  with assms(2,3) have "tracked v" by (auto simp: all_tracked_def)
  with assms(4) have 1: "color v = snd (parse_sku (row v ! col_sku))"
    by (simp add: tracked_def)
  have 2: "case color v of None \<Rightarrow> True
           | Some c \<Rightarrow> strip c = [] \<or> strip c \<in> set (collect_colors vs [])"
    using collect_colors_member [OF assms(3)] by (auto split: option.splits)
  from 1 2 show ?thesis ..
qed

lemma parse_127: "parse_sku (Text ''WPJF 001-127'') = (Some ''WPJF 001'', Some ''127'')"
  by code_simp

lemma strip_sku_127: "strip ''WPJF 001-127'' = ''WPJF 001-127''"
  by code_simp

lemma strip_127: "strip ''127'' = ''127''"
  by code_simp

lemma example_grouping:
  "group_rows_by_base_sku (\<lambda>c. None) [example_row] 0 1 = Inr [(''WPJF 001'', [example_variant])]"
  by (simp add: group_rows_by_base_sku_def iloc_def group_row_def example_row_def
      example_variant_def col_sku_def col_description_def col_color_def col_price_def
      col_name_def col_famille_def col_tech_description_def parse_127 strip_sku_127
      get_available_sizes_def SIZE_COLUMNS_def marked_def)

theorem absent_color_takes_variation_witness:
  "group_rows_by_base_sku (\<lambda>c. None) [example_row] 0 1 = Inr [(''WPJF 001'', [example_variant])]
   \<and> row example_variant ! col_color = NA \<and> isna (row example_variant ! col_color)
   \<and> color example_variant = Some ''127''
   \<and> ''127'' \<in> set (collect_colors [example_variant] [])"
proof -
  have c: "row example_variant ! col_color = NA"
    by (simp add: example_variant_def example_row_def col_color_def)
  then have i: "isna (row example_variant ! col_color)" by simp
  have m: "(''WPJF 001'', [example_variant]) \<in> set [(''WPJF 001'', [example_variant])]"
    and v: "example_variant \<in> set [example_variant]" by simp_all
  have k: "color example_variant = Some ''127''" by (simp add: example_variant_def)
  note t = absent_color_takes_variation [OF example_grouping m v i]
  from t [THEN conjunct2]
  have "strip ''127'' = [] \<or> strip ''127'' \<in> set (collect_colors [example_variant] [])"
    by (simp add: k)
  then have "''127'' \<in> set (collect_colors [example_variant] [])"
    by (simp add: strip_127)
  with example_grouping c i k show ?thesis by blast
qed

section \<open>The image cascade\<close>

lemma norm_999: "normalize_sku (Some ''WPJF 001-999'') = (Some ''WPJF001-999'', Some ''WPJF001'', Some ''999'')"
  by code_simp


text \<open>
  Claim C5, as stated, fails: when the folder of the exact key exists but holds no image,
  the resolver returns its empty list and never reaches the base folder, whose images a
  cascade returning the first non-empty match would give.
\<close>

theorem empty_folder_stops_cascade:
  "find_images_for_sku (Some ''WPJF 001-999'') example_index = []
   \<and> spec_resolve (Some ''WPJF 001-999'') example_index = [''images/WPJF001/a.jpg'']"
  by code_simp

lemma wp_group1:
  assumes "re_match (GOpen # One (Lit (CHR ''W'')) # One (Lit (CHR ''P'')) # Plus UpperAZ # GClose # rest) s = Some m"
  shows "\<exists>p. group m 1 = CHR ''W'' # p"
proof -
  let ?as = "GOpen # One (Lit (CHR ''W'')) # One (Lit (CHR ''P'')) # Plus UpperAZ # GClose # rest"
  from assms obtain ps where r: "re_run ?as s = Some ps"
    and m: "m = collect (zip ?as ps) None"
    by (auto simp: re_match_def)
  from re_run_length [OF r] have len: "length ps = Suc (Suc (Suc (Suc (Suc (length rest)))))" by simp
  from r obtain s1 where s: "s = CHR ''W'' # s1"
    by (cases s) (auto split: if_splits)
  from r s obtain qs where ps: "ps = [] # [CHR ''W''] # qs"
    by auto
  from len ps obtain q1 q2 q3 qs' where qs: "qs = q1 # q2 # q3 # qs'"
    by (auto simp: length_Suc_conv)
  have "group m 1 = CHR ''W'' # q1 @ q2" by (simp add: m ps qs group_def)
  then show ?thesis by blast
qed

lemma re_sub_spaced_dash_hd:
  assumes "s \<noteq> []" and "\<not> is_space (hd s)"
  shows "re_sub spaced_dash ''-'' s \<noteq> [] \<and> hd (re_sub spaced_dash ''-'' s) = hd s"
proof -
  from assms obtain c cs where s: "s = c # cs" and c: "\<not> is_space c" by (cases s) auto
  show ?thesis
  proof (cases "c = CHR ''-''")
    case True
    then show ?thesis
      by (cases "re_run spaced_dash (c # cs)") (simp_all add: s)
  next
    case False
    with c have "re_run spaced_dash (c # cs) = None" by (simp add: spaced_dash_def)
    then show ?thesis by (simp add: s)
  qed
qed

lemma prepare_hd:
  assumes "strip r \<noteq> []"
  shows "prepare r \<noteq> [] \<and> \<not> is_space (hd (prepare r))"
proof -
  let ?c = "join_sp (split_ws (strip r))"
  let ?d = "replace_char (CHR ''/'') (CHR ''-'') ?c"
  from collapse_hd [OF assms] have c: "?c \<noteq> []" "\<not> is_space (hd ?c)" by simp_all
  have d: "?d \<noteq> []" using c by (simp add: replace_char_def)
  have "hd ?d = (if hd ?c = CHR ''/'' then CHR ''-'' else hd ?c)"
    using c by (simp add: replace_char_def hd_map)
  moreover have "\<not> is_space (CHR ''-'')" by (simp add: is_space_def)
  ultimately have h: "\<not> is_space (hd ?d)" using c by simp
  from re_sub_spaced_dash_hd [OF d h] h show ?thesis by (simp add: prepare_def Let_def)
qed

lemma is_space_blank: "is_space (CHR '' '')"
  by (simp add: is_space_def)

lemma remove_spaces_nonempty:
  assumes "s \<noteq> []" and "\<not> is_space (hd s)"
  shows "remove_spaces s \<noteq> []"
proof -
  from assms obtain c cs where "s = c # cs" "c \<noteq> CHR '' ''"
    using is_space_blank by (cases s) auto
  then show ?thesis by (simp add: remove_spaces_def)
qed

lemma normalize_sku_present:
  assumes "\<not> blank raw"
  shows "\<exists>n b v. normalize_sku raw = (Some n, Some b, v) \<and> n \<noteq> [] \<and> b \<noteq> []"
proof -
  from assms obtain r where raw: "raw = Some r" and sr: "strip r \<noteq> []"
    by (auto simp: blank_def split: option.splits)
  then have rne: "r \<noteq> []" by auto
  note ph = prepare_hd [OF sr]
  show ?thesis
  proof (cases "re_match pattern1 (prepare r)")
    case (Some m)
    from wp_group1 [OF Some [unfolded pattern1_def]] obtain p where "group m 1 = CHR ''W'' # p" ..
    with Some raw sr rne show ?thesis by (simp add: normalize_sku_def Let_def)
  next
    case n1: None
    show ?thesis
    proof (cases "re_match pattern2 (prepare r)")
      case (Some m)
      from wp_group1 [OF Some [unfolded pattern2_def]] obtain p where "group m 1 = CHR ''W'' # p" ..
      with n1 Some raw sr rne show ?thesis by (simp add: normalize_sku_def Let_def)
    next
      case n2: None
      show ?thesis
      proof (cases "re_match pattern3 (prepare r)")
        case (Some m)
        from wp_group1 [OF Some [unfolded pattern3_def]] obtain p where "group m 1 = CHR ''W'' # p" ..
        with n1 n2 Some raw sr rne show ?thesis by (simp add: normalize_sku_def Let_def)
      next
        case None
        with n1 n2 raw sr rne remove_spaces_nonempty ph show ?thesis
          by (simp add: normalize_sku_def Let_def)
      qed
    qed
  qed
qed

lemma first_with_prefix_find:
  "first_with_prefix b fm = map_option snd (find (\<lambda>(k, i). startswith k b) fm)"
  by (induction fm) auto

lemma keys_999:
  "exact_key ''WPJF001-999'' = ''WPJF001-999''"
  "remove_spaces ''999'' = ''999''"
  "upper ''WPJF001-999'' = ''WPJF001-999''"
  "upper ''WPJF001'' = ''WPJF001''"
  by code_simp+

lemma find_images_as_stages:
  "find_images_for_sku raw fm =
     (case first_hit (stage_hits raw fm) of Some i \<Rightarrow> images i | None \<Rightarrow> [])"
proof (cases "blank raw")
  case True
  then have "normalize_sku raw = (None, None, None)"
    by (auto simp: blank_def normalize_sku_def split: option.splits)
  then show ?thesis by (simp add: find_images_for_sku_def stage_hits_def first_hit_def)
next
  case False
  from normalize_sku_present [OF False] obtain n b v
    where n: "normalize_sku raw = (Some n, Some b, v)" "n \<noteq> []" "b \<noteq> []" by blast
  from False obtain r where raw: "raw = Some r" and sr: "strip r \<noteq> []"
    by (auto simp: blank_def split: option.splits)
  from sr have r: "r \<noteq> []" by auto
  show ?thesis
    using n r unfolding raw
    by (auto simp: find_images_for_sku_def stage_hits_def first_hit_def exact_key_def
        first_with_prefix_find split: option.splits)
qed

text \<open>
  Claim C5, amended. For every raw SKU and every image index, \<open>find_images_for_sku\<close>
  goes through the stages in order (exact key, base plus variation without spaces when
  there is a variation, base alone, first index key starting with the base) and
  returns the image list of the first stage whose key is in the index, also when that
  list is empty; it returns the empty list when no stage finds a key. A blank SKU has no
  stage, any other SKU has all four. In particular \<open>"WPJF 001-999"\<close> resolves to the
  images of the folder keyed \<open>"WPJF001"\<close> when the index has no key
  \<open>"WPJF001-999"\<close>.
\<close>

theorem find_images_cascade:
  "find_images_for_sku raw fm =
     (case first_hit (stage_hits raw fm) of Some i \<Rightarrow> images i | None \<Rightarrow> [])
   \<and> (if blank raw then stage_hits raw fm = [] else length (stage_hits raw fm) = 4)
   \<and> (map_of fm ''WPJF001-999'' = None \<and> map_of fm ''WPJF001'' = Some info
        \<longrightarrow> find_images_for_sku (Some ''WPJF 001-999'') fm = images info)"
proof (intro conjI impI)
  show "find_images_for_sku raw fm =
     (case first_hit (stage_hits raw fm) of Some i \<Rightarrow> images i | None \<Rightarrow> [])"
    by (rule find_images_as_stages)
next
  show "if blank raw then stage_hits raw fm = [] else length (stage_hits raw fm) = 4"
  proof (cases "blank raw")
    case True
    then have "normalize_sku raw = (None, None, None)"
      by (auto simp: blank_def normalize_sku_def split: option.splits)
    with True show ?thesis by (simp add: stage_hits_def)
  next
    case False
    from normalize_sku_present [OF False] False show ?thesis
      by (auto simp: stage_hits_def)
  qed
next
  assume "map_of fm ''WPJF001-999'' = None \<and> map_of fm ''WPJF001'' = Some info"
  then show "find_images_for_sku (Some ''WPJF 001-999'') fm = images info"
    by (simp add: find_images_for_sku_def norm_999 keys_999)
qed

theorem find_images_cascade_witness:
  "\<not> blank (Some ''WPJF 001-999'')
   \<and> map_of base_only_index ''WPJF001-999'' = None
   \<and> map_of base_only_index ''WPJF001'' = Some base_folder
   \<and> length (stage_hits (Some ''WPJF 001-999'') base_only_index) = 4
   \<and> find_images_for_sku (Some ''WPJF 001-999'') base_only_index = [''images/WPJF001/a.jpg'']"
proof -
  have b: "\<not> blank (Some ''WPJF 001-999'')" by code_simp
  have m1: "map_of base_only_index ''WPJF001-999'' = None"
    and m2: "map_of base_only_index ''WPJF001'' = Some base_folder"
    by (simp_all add: base_only_index_def)
  have i: "images base_folder = [''images/WPJF001/a.jpg'']" by (simp add: base_folder_def)
  from find_images_cascade [of "Some ''WPJF 001-999''" base_only_index base_folder, THEN conjunct2]
    b m1 m2 i
  show ?thesis by simp
qed

section \<open>Soundness of the matcher\<close>








section \<open>Facts about characters and uppercasing\<close>

lemma of_char_up:
  assumes "is_lower c"
  shows "(of_char (up c) :: nat) = of_char c - 32"
proof -
  let ?n = "of_char c :: nat"
  from assms have "97 \<le> ?n" "?n \<le> 122" by (simp_all add: is_lower_def)
  then have "(?n - 32) mod 256 = ?n - 32" by simp
  with assms show ?thesis by (simp add: up_def)
qed

lemma up_is_upper:
  assumes "is_lower c"
  shows "is_upper (up c)"
proof -
  let ?n = "of_char c :: nat"
  from assms have "97 \<le> ?n" "?n \<le> 122" by (simp_all add: is_lower_def)
  then have "65 \<le> ?n - 32 \<and> ?n - 32 \<le> 90" by arith
  then show ?thesis by (simp add: is_upper_def of_char_up [OF assms])
qed







lemma up_eq_fixed:
  assumes "\<not> is_lower d" and "\<not> is_upper d"
  shows "up c = d \<longleftrightarrow> c = d"
proof (cases "is_lower c")
  case True
  then have "is_upper (up c)" by (rule up_is_upper)
  with assms True show ?thesis by auto
next
  case False
  then show ?thesis by (simp add: up_def)
qed


lemma upper_append: "upper (a @ b) = upper a @ upper b"
  by (simp add: upper_def)

section \<open>The prepared text has no whitespace but plain spaces\<close>


lemma plain_spaces_append [simp]: "plain_spaces (a @ b) \<longleftrightarrow> plain_spaces a \<and> plain_spaces b"
  by (simp add: plain_spaces_def)








section \<open>What the patterns of the normaliser match\<close>









section \<open>The normalized key and the lookup key\<close>



lemma plain_spaces_Cons [simp]:
  "plain_spaces (c # s) \<longleftrightarrow> (is_space c \<longrightarrow> c = CHR '' '') \<and> plain_spaces s"
  by (simp add: plain_spaces_def)







lemma normalized_key_keeps_variation_spaces:
  "fst (normalize_sku (Some ''WPJF 0012 BLUE MEDIUM'')) = Some ''WPJF0012-BLUE MEDIUM''"
  by code_simp



end
